theory Spec2Isabelle
  imports Complex_Main "HOL-Library.List_Lexorder" "HOL-Library.Char_ord" "HOL-Library.AList"
begin

section \<open>Counter core: the live tally\<close>

text \<open>
  The component \<open>App\<close> of \<open>src/App.tsx\<close> keeps the tally in the state variable
  \<open>count\<close>. Both button handlers replace it through a functional update:
  \<open>setCount(c => Math.max(0, c + step))\<close> and \<open>setCount(c => Math.max(0, c - step))\<close>.
  The tally and the step are integers here; the haptic call and the animation direction
  do not touch the tally and are left out.
\<close>

definition increment :: "int \<Rightarrow> int \<Rightarrow> int" where
  "increment step c = max 0 (c + step)"

definition decrement :: "int \<Rightarrow> int \<Rightarrow> int" where
  "decrement step c = max 0 (c - step)"

text \<open>The function \<open>reset\<close> is \<open>setCount(0)\<close>.\<close>

definition reset :: "int \<Rightarrow> int" where
  "reset c = 0"

datatype counter_op = Increment int | Decrement int

fun apply_op :: "counter_op \<Rightarrow> int \<Rightarrow> int" where
  "apply_op (Increment step) c = increment step c"
| "apply_op (Decrement step) c = decrement step c"

text \<open>A sequence of button events, applied to the tally from left to right.\<close>

definition run_ops :: "counter_op list \<Rightarrow> int \<Rightarrow> int" where
  "run_ops ops c = fold apply_op ops c"

section \<open>Calendar dates and ledger keys\<close>

text \<open>
  The program reads a JavaScript \<open>Date\<close> through \<open>getFullYear()\<close>, \<open>getMonth()\<close> (0 for
  January to 11 for December) and \<open>getDate()\<close>, the calendar fields of the date in the
  user's local time. The record below holds these three fields; how they come from the
  time value of a \<open>Date\<close> and from the time zone is set out with the streak calculator.
  The ledger operations use the clock only through \<open>todayKey()\<close> and take the fields
  of the current date as their argument \<open>today\<close>.
\<close>

record Date =
  year :: int
  month :: nat
  day :: nat

text \<open>\<open>String(n)\<close> for an integer \<open>n\<close>: the decimal digits, with a leading minus sign
  when \<open>n\<close> is negative.\<close>

definition digit_char :: "nat \<Rightarrow> char" where
  "digit_char n = ''0123456789'' ! n"

fun string_of_nat :: "nat \<Rightarrow> string" where
  "string_of_nat n =
     (if n < 10 then [digit_char n] else string_of_nat (n div 10) @ [digit_char (n mod 10)])"

definition String :: "int \<Rightarrow> string" where
  "String i = (if i < 0 then CHR ''-'' # string_of_nat (nat (- i)) else string_of_nat (nat i))"

text \<open>\<open>s.padStart(2, '0')\<close>: zeros in front until the length is 2.\<close>

definition padStart2 :: "string \<Rightarrow> string" where
  "padStart2 s = replicate (2 - length s) CHR ''0'' @ s"

text \<open>The functions \<open>todayKey\<close> (of the current date) and \<open>todayKeyForDate\<close> have the same
  body in the source: year, month plus one and day of the month, joined by hyphens.\<close>

definition todayKey :: "Date \<Rightarrow> string" where
  "todayKey d =
     (let y = String (year d);
          m = padStart2 (String (int (month d) + 1));
          dd = padStart2 (String (int (day d)))
      in y @ ''-'' @ m @ ''-'' @ dd)"


section \<open>Daily history ledger\<close>

text \<open>
  \<open>types.ts\<close>: \<open>DayLog = { date: string, total: number }\<close> and
  \<open>History = Record<string, DayLog>\<close>. A JavaScript object keeps its properties in
  insertion order, so the ledger is an association list: \<open>h[key]\<close> is \<open>map_of h key\<close>,
  \<open>{ ...h, [key]: v }\<close> is \<open>AList.update key v h\<close> (an existing property keeps its place, a
  new one goes to the end), and the rest pattern \<open>{ [key]: _, ...rest }\<close> is
  \<open>AList.delete key h\<close>.
\<close>

record DayLog =
  date :: string
  total :: int

type_synonym History = "(string \<times> DayLog) list"

text \<open>The two state variables of \<open>App\<close> that the ledger operations read and write.\<close>

record AppState =
  count :: int
  history :: History

text \<open>
  The effect that mirrors the tally into the ledger (\<open>useEffect(..., [count])\<close>): it
  returns at once when the tally is negative, and otherwise updates the ledger with
  \<open>h => { const prev = h[key]?.total ?? -1; if (prev === count) return h; ... }\<close>.
\<close>

definition upsertToday :: "string \<Rightarrow> int \<Rightarrow> History \<Rightarrow> History" where
  "upsertToday key c h =
     (let prev = (case map_of h key of Some r \<Rightarrow> total r | None \<Rightarrow> - 1)
      in if prev = c then h else AList.update key \<lparr>date = key, total = c\<rparr> h)"

definition upsertEffect :: "Date \<Rightarrow> AppState \<Rightarrow> AppState" where
  "upsertEffect today st =
     (if count st < 0 then st
      else let key = todayKey today
           in st\<lparr>history := upsertToday key (count st) (history st)\<rparr>)"

text \<open>\<open>clearToday\<close>: \<open>if (!history[key]) return\<close>, then the ledger without \<open>key\<close>.\<close>

definition clearToday :: "Date \<Rightarrow> AppState \<Rightarrow> AppState" where
  "clearToday today st =
     (let key = todayKey today
      in if map_of (history st) key = None then st
         else st\<lparr>history := AList.delete key (history st)\<rparr>)"

text \<open>\<open>checkDayChange\<close>: when the ledger has no record for today, \<open>setCount(0)\<close> and
  \<open>setHistory(h => ({ ...h, [key]: { date: key, total: 0 } }))\<close>.\<close>

definition checkDayChange :: "Date \<Rightarrow> AppState \<Rightarrow> AppState" where
  "checkDayChange today st =
     (let key = todayKey today
      in if map_of (history st) key = None
         then st\<lparr>count := 0,
                 history := AList.update key \<lparr>date = key, total = 0\<rparr> (history st)\<rparr>
         else st)"

text \<open>
  \<open>clearToday\<close> as the component runs it. When it returns early no state is set and
  nothing follows. Otherwise \<open>setHistory(rest)\<close> gives the component a new ledger, and
  the effect declared with the dependency \<open>[history]\<close> (the one that holds
  \<open>checkDayChange\<close>) is set up again after that render, which calls \<open>checkDayChange()\<close>
  at once, on the ledger without today's record. The tally has not changed in that
  render, so the \<open>[count]\<close> effect does not run in it.
\<close>

definition clearToday_committed :: "Date \<Rightarrow> AppState \<Rightarrow> AppState" where
  "clearToday_committed today st =
     (let key = todayKey today
      in if map_of (history st) key = None then st
         else checkDayChange today (clearToday today st))"

section \<open>Hold-to-repeat input controller\<close>

text \<open>
  The controller lives on the browser's timers. One button is modelled together with the
  timers its controller has registered: the clock in milliseconds, the table of armed
  timers by handle (a cleared timer is no longer in the table), the next free handle,
  the button's \<open>HoldState\<close> (\<open>ref.current\<close>) and the times at which the action \<open>fn\<close> was
  called. A timer runs its callback in the millisecond in which it falls due; an
  interval is then armed again one period later.

  The callbacks handed to the timers: the arrow function of \<open>startHold\<close>, which arms
  the interval, the action \<open>fn\<close> itself, and the arrow function of the older variant
  of \<open>startHold\<close>, which calls \<open>fn\<close> and then arms the interval.
\<close>

datatype callback = ArmRepeat | Tick | TickThenArmRepeat

record timer =
  due :: nat
  period :: "nat option"
  action :: callback

record HoldState =
  delay :: "nat option"
  repeat :: "nat option"

record window =
  clock :: nat
  timers :: "(nat \<times> timer) list"
  nextId :: nat
  holdRef :: HoldState
  fired :: "nat list"

text \<open>The action \<open>fn\<close> (\<open>increment\<close> or \<open>decrement\<close>); only the time of the call is kept.\<close>

definition fn :: "window \<Rightarrow> window" where
  "fn w = w\<lparr>fired := fired w @ [clock w]\<rparr>"

definition setTimeout :: "callback \<Rightarrow> nat \<Rightarrow> window \<Rightarrow> nat \<times> window" where
  "setTimeout a ms w =
     (nextId w,
      w\<lparr>timers := timers w @ [(nextId w, \<lparr>due = clock w + ms, period = None, action = a\<rparr>)],
        nextId := nextId w + 1\<rparr>)"

definition setInterval :: "callback \<Rightarrow> nat \<Rightarrow> window \<Rightarrow> nat \<times> window" where
  "setInterval a ms w =
     (nextId w,
      w\<lparr>timers := timers w @ [(nextId w, \<lparr>due = clock w + ms, period = Some ms, action = a\<rparr>)],
        nextId := nextId w + 1\<rparr>)"

definition clearTimeout :: "nat \<Rightarrow> window \<Rightarrow> window" where
  "clearTimeout h w = w\<lparr>timers := AList.delete h (timers w)\<rparr>"

definition clearInterval :: "nat \<Rightarrow> window \<Rightarrow> window" where
  "clearInterval h w = w\<lparr>timers := AList.delete h (timers w)\<rparr>"

text \<open>\<open>startHold\<close> and \<open>stopHold\<close> of \<open>src/App.tsx\<close>.\<close>

definition startHold :: "window \<Rightarrow> window" where
  "startHold w =
     (let w1 = fn w;
          (h, w2) = setTimeout ArmRepeat 300 w1
      in w2\<lparr>holdRef := (holdRef w2)\<lparr>delay := Some h\<rparr>\<rparr>)"

definition stopHold :: "window \<Rightarrow> window" where
  "stopHold w =
     (let w1 = (case delay (holdRef w) of
                  Some h \<Rightarrow> (clearTimeout h w)\<lparr>holdRef := (holdRef w)\<lparr>delay := None\<rparr>\<rparr>
                | None \<Rightarrow> w)
      in (case repeat (holdRef w1) of
            Some h \<Rightarrow> (clearInterval h w1)\<lparr>holdRef := (holdRef w1)\<lparr>repeat := None\<rparr>\<rparr>
          | None \<Rightarrow> w1))"

fun run_callback :: "callback \<Rightarrow> window \<Rightarrow> window" where
  "run_callback ArmRepeat w =
     (let (h, w1) = setInterval Tick 150 w
      in w1\<lparr>holdRef := (holdRef w1)\<lparr>repeat := Some h\<rparr>\<rparr>)"
| "run_callback Tick w = fn w"
| "run_callback TickThenArmRepeat w =
     (let w0 = fn w;
          (h, w1) = setInterval Tick 150 w0
      in w1\<lparr>holdRef := (holdRef w1)\<lparr>repeat := Some h\<rparr>\<rparr>)"

text \<open>Delivery of the timer with handle \<open>h\<close>: nothing happens when it is not armed.\<close>

definition fire :: "nat \<Rightarrow> window \<Rightarrow> window" where
  "fire h w =
     (case map_of (timers w) h of
        None \<Rightarrow> w
      | Some t \<Rightarrow>
          run_callback (action t)
            (case period t of
               None \<Rightarrow> w\<lparr>timers := AList.delete h (timers w)\<rparr>
             | Some p \<Rightarrow> w\<lparr>timers := AList.update h (t\<lparr>due := due t + p\<rparr>) (timers w)\<rparr>))"

text \<open>One millisecond passes; then \<open>n\<close> milliseconds.\<close>

definition elapse1 :: "window \<Rightarrow> window" where
  "elapse1 w =
     (let w1 = w\<lparr>clock := clock w + 1\<rparr>;
          ready = map fst (filter (\<lambda>(h, t). due t \<le> clock w1) (timers w1))
      in fold fire ready w1)"

definition elapse :: "nat \<Rightarrow> window \<Rightarrow> window" where
  "elapse n w = (elapse1 ^^ n) w"

text \<open>The released state: no timer armed and both handles \<open>null\<close>.\<close>

definition idle :: "window \<Rightarrow> bool" where
  "idle w = (timers w = [] \<and> delay (holdRef w) = None \<and> repeat (holdRef w) = None)"

text \<open>The state \<open>t\<close> milliseconds into a press that began in the released state \<open>w\<close>
  (used in the proofs): before 300 ms the delay timer is armed, from then on the
  interval, and \<open>fn\<close> has been called at the press and at 450, 600, ... ms after it.\<close>

definition held :: "window \<Rightarrow> nat \<Rightarrow> window" where
  "held w t =
     w\<lparr>clock := clock w + t,
       timers := (if t < 300
                  then [(nextId w, \<lparr>due = clock w + 300, period = None, action = ArmRepeat\<rparr>)]
                  else [(nextId w + 1, \<lparr>due = clock w + 450 + 150 * ((t - 300) div 150),
                                         period = Some 150, action = Tick\<rparr>)]),
       nextId := nextId w + (if t < 300 then 1 else 2),
       holdRef := \<lparr>delay = Some (nextId w),
                    repeat = (if t < 300 then None else Some (nextId w + 1))\<rparr>,
       fired := fired w @ clock w # map (\<lambda>k. clock w + 450 + 150 * k) [0..<(t - 300) div 150]\<rparr>"

text \<open>
  The older variant of the controller (the second copy of the component in the
  repository): \<open>startHold\<close> only schedules, and \<open>stopHold\<close> calls \<open>fn\<close> when the delay
  handle is set and the repeat handle is not.
\<close>

definition startHold_deferred :: "window \<Rightarrow> window" where
  "startHold_deferred w =
     (let (h, w1) = setTimeout TickThenArmRepeat 300 w
      in w1\<lparr>holdRef := (holdRef w1)\<lparr>delay := Some h\<rparr>\<rparr>)"

definition stopHold_deferred :: "window \<Rightarrow> window" where
  "stopHold_deferred w =
     (let hadDelay = (delay (holdRef w) \<noteq> None);
          hadRepeat = (repeat (holdRef w) \<noteq> None);
          w0 = (if hadDelay \<and> \<not> hadRepeat then fn w else w);
          w1 = (case delay (holdRef w0) of
                  Some h \<Rightarrow> (clearTimeout h w0)\<lparr>holdRef := (holdRef w0)\<lparr>delay := None\<rparr>\<rparr>
                | None \<Rightarrow> w0)
      in (case repeat (holdRef w1) of
            Some h \<Rightarrow> (clearInterval h w1)\<lparr>holdRef := (holdRef w1)\<lparr>repeat := None\<rparr>\<rparr>
          | None \<Rightarrow> w1))"

section \<open>Persistent store adapter\<close>

text \<open>
  \<open>localStorage\<close> maps string keys to string values; \<open>getItem\<close> gives \<open>null\<close> (here
  \<open>None\<close>) for a key that is not stored.
\<close>

type_synonym Storage = "string \<rightharpoonup> string"

definition STORAGE_KEYS_COUNT :: string where "STORAGE_KEYS_COUNT = ''japa.count''"
definition STORAGE_KEYS_HISTORY :: string where "STORAGE_KEYS_HISTORY = ''japa.history''"
definition STORAGE_KEYS_SETTINGS :: string where "STORAGE_KEYS_SETTINGS = ''japa.settings''"

text \<open>
  A JavaScript number is a finite value, \<open>NaN\<close> or one of the two infinities. The finite
  values are rationals here, which covers every finite double. The conversions
  \<open>Number(raw)\<close> and \<open>JSON.parse(raw)\<close> belong to the language and not to the
  program: the loaders take them as the arguments \<open>toNumber\<close> and \<open>JSON_parse\<close>, and
  what is proved of the loaders holds for every such function.
\<close>

datatype jsnum = Finite rat | NaN | PosInfinity | NegInfinity

text \<open>\<open>Number.isFinite\<close>.\<close>

fun isFinite :: "jsnum \<Rightarrow> bool" where
  "isFinite (Finite q) = True"
| "isFinite NaN = False"
| "isFinite PosInfinity = False"
| "isFinite NegInfinity = False"

text \<open>\<open>loadNumber\<close>: \<open>raw ? Number(raw) : fallback\<close> (a missing value and the empty string
  are falsy), then the fallback again when the number is not finite.\<close>

definition loadNumber :: "(string \<Rightarrow> jsnum) \<Rightarrow> Storage \<Rightarrow> string \<Rightarrow> jsnum \<Rightarrow> jsnum" where
  "loadNumber toNumber localStorage key fallback =
     (let raw = localStorage key;
          n = (case raw of
                 Some s \<Rightarrow> if s \<noteq> [] then toNumber s else fallback
               | None \<Rightarrow> fallback)
      in if isFinite n then n else fallback)"

text \<open>A number that is a non-negative integer, as the spec's data model wants the tally.\<close>

definition isNonNegInteger :: "jsnum \<Rightarrow> bool" where
  "isNonNegInteger n =
     (case n of Finite q \<Rightarrow> 0 \<le> q \<and> q = of_int \<lfloor>q\<rfloor> | _ \<Rightarrow> False)"

text \<open>The initial state of \<open>count\<close>: \<open>loadNumber(STORAGE_KEYS.COUNT, 0)\<close>.\<close>

definition initialCount :: "(string \<Rightarrow> jsnum) \<Rightarrow> Storage \<Rightarrow> jsnum" where
  "initialCount toNumber localStorage =
     loadNumber toNumber localStorage STORAGE_KEYS_COUNT (Finite 0)"

text \<open>
  \<open>Number(s)\<close> on the texts that \<open>String\<close> writes for an integer: decimal digits with an
  optional sign (exact for integers of magnitude up to \<open>2^53\<close>). A text with any other
  character converts to \<open>NaN\<close>, except for the forms that this function does not cover:
  surrounding white space, a fraction or exponent, \<open>Infinity\<close> and the prefixes
  \<open>0x\<close>, \<open>0o\<close>, \<open>0b\<close>. It is used on concrete stored texts only.
\<close>

definition digit_value :: "char \<Rightarrow> nat option" where
  "digit_value c = map_of (zip ''0123456789'' [0, 1, 2, 3, 4, 5, 6, 7, 8, 9]) c"

fun parse_digits :: "string \<Rightarrow> nat \<Rightarrow> nat option" where
  "parse_digits [] acc = Some acc"
| "parse_digits (c # cs) acc =
     (case digit_value c of None \<Rightarrow> None | Some v \<Rightarrow> parse_digits cs (10 * acc + v))"

definition Number_decimal :: "string \<Rightarrow> jsnum" where
  "Number_decimal s =
     (case s of
        [] \<Rightarrow> Finite 0
      | c # cs \<Rightarrow>
          if c = CHR ''-'' \<and> cs \<noteq> []
          then (case parse_digits cs 0 of Some n \<Rightarrow> Finite (- of_nat n) | None \<Rightarrow> NaN)
          else if c = CHR ''+'' \<and> cs \<noteq> []
          then (case parse_digits cs 0 of Some n \<Rightarrow> Finite (of_nat n) | None \<Rightarrow> NaN)
          else (case parse_digits s 0 of Some n \<Rightarrow> Finite (of_nat n) | None \<Rightarrow> NaN))"

text \<open>The values \<open>JSON.parse\<close> can return; it throws a \<open>SyntaxError\<close> on a text that is
  not JSON. An object lists its properties in order.\<close>

datatype json =
    JNull
  | JBool bool
  | JNumber rat
  | JString string
  | JArray "json list"
  | JObject "(string \<times> json) list"

datatype js_error = SyntaxError

text \<open>Truthiness of a parsed value, as \<open>obj || {}\<close> tests it.\<close>

fun truthy :: "json \<Rightarrow> bool" where
  "truthy JNull = False"
| "truthy (JBool b) = b"
| "truthy (JNumber q) = (q \<noteq> 0)"
| "truthy (JString s) = (s \<noteq> [])"
| "truthy (JArray xs) = True"
| "truthy (JObject kvs) = True"

text \<open>\<open>try { body } catch { handler }\<close>: an exception is the left summand.\<close>

definition try_catch :: "'e + 'a \<Rightarrow> ('e \<Rightarrow> 'e + 'a) \<Rightarrow> 'e + 'a" where
  "try_catch body handler = (case body of Inl e \<Rightarrow> handler e | Inr v \<Rightarrow> Inr v)"

definition loadHistory :: "(string \<Rightarrow> js_error + json) \<Rightarrow> Storage \<Rightarrow> js_error + json" where
  "loadHistory JSON_parse localStorage =
     try_catch
       (case localStorage STORAGE_KEYS_HISTORY of
          None \<Rightarrow> Inr (JObject [])
        | Some raw \<Rightarrow>
            if raw = [] then Inr (JObject [])
            else (case JSON_parse raw of
                    Inl e \<Rightarrow> Inl e
                  | Inr obj \<Rightarrow> Inr (if truthy obj then obj else JObject [])))
       (\<lambda>e. Inr (JObject []))"

text \<open>
  Object spread \<open>{ ...a, ...b }\<close> copies the own enumerable properties of its operands
  from left to right, a later one replacing an earlier one of the same name: the
  properties of an object, the indices of an array or a string, nothing for \<open>null\<close>, a
  boolean or a number.
\<close>

fun ownProperties :: "json \<Rightarrow> (string \<times> json) list" where
  "ownProperties (JObject kvs) = kvs"
| "ownProperties (JArray xs) = zip (map string_of_nat [0..<length xs]) xs"
| "ownProperties (JString s) = zip (map string_of_nat [0..<length s]) (map (\<lambda>c. JString [c]) s)"
| "ownProperties v = []"

definition spread :: "(string \<times> json) list \<Rightarrow> json \<Rightarrow> (string \<times> json) list" where
  "spread target src = fold (\<lambda>(k, v). AList.update k v) (ownProperties src) target"

definition defaultSettings :: "(string \<times> json) list" where
  "defaultSettings =
     [(''vibrate'', JBool True),
      (''vibrateMs'', JNumber 10),
      (''autoResetAfterLog'', JBool True),
      (''hapticsOnDecrement'', JBool False)]"

definition loadSettings :: "(string \<Rightarrow> js_error + json) \<Rightarrow> Storage \<Rightarrow> js_error + json" where
  "loadSettings JSON_parse localStorage =
     try_catch
       (case localStorage STORAGE_KEYS_SETTINGS of
          None \<Rightarrow> Inr (JObject defaultSettings)
        | Some raw \<Rightarrow>
            if raw = [] then Inr (JObject defaultSettings)
            else (case JSON_parse raw of
                    Inl e \<Rightarrow> Inl e
                  | Inr v \<Rightarrow> Inr (JObject (spread (spread [] (JObject defaultSettings)) v))))
       (\<lambda>e. Inr (JObject defaultSettings))"

section \<open>Dates in local time\<close>



































section \<open>Streak calculator\<close>












section \<open>Facts about dates and keys\<close>

lemma digit_cases: "n < 10 \<Longrightarrow> n \<in> {0, 1, 2, 3, 4, 5, 6, 7, 8, 9::nat}"
  by auto


lemma digit_char_not_minus: "n < 10 \<Longrightarrow> digit_char n \<noteq> CHR ''-''"
  using digit_cases [of n] by (auto simp: digit_char_def)


declare string_of_nat.simps [simp del]



lemma string_of_nat_no_minus: "CHR ''-'' \<notin> set (string_of_nat n)"
proof (induction n rule: string_of_nat.induct)
  case (1 n)
  show ?case
  proof (cases "n < 10")
    case True
    then show ?thesis
      using digit_char_not_minus [of n] by (subst string_of_nat.simps) auto
  next
    case False
    then have "CHR ''-'' \<notin> set (string_of_nat (n div 10))" by (rule 1)
    moreover have "digit_char (n mod 10) \<noteq> CHR ''-''" by (simp add: digit_char_not_minus)
    ultimately show ?thesis using False
      by (subst string_of_nat.simps) auto
  qed
qed




lemma String_no_minus: "0 \<le> i \<Longrightarrow> CHR ''-'' \<notin> set (String i)"
  by (simp add: String_def string_of_nat_no_minus)








section \<open>Facts about local dates\<close>











































section \<open>Properties of the tally\<close>

lemma apply_op_nonneg: "0 \<le> apply_op op c"
  by (cases op) (simp_all add: increment_def decrement_def)

lemma run_ops_nonneg: "0 \<le> c \<or> ops \<noteq> [] \<Longrightarrow> 0 \<le> run_ops ops c"
proof (induction ops arbitrary: c)
  case Nil
  then show ?case by (simp add: run_ops_def)
next
  case (Cons op ops)
  have "0 \<le> run_ops ops (apply_op op c)"
    by (rule Cons.IH) (simp add: apply_op_nonneg)
  then show ?case by (simp add: run_ops_def)
qed

lemma decrement_one_funpow:
  "0 \<le> c \<Longrightarrow> (decrement 1 ^^ n) c = max 0 (c - int n)"
  by (induction n) (auto simp: decrement_def)

lemma decrement_one_funpow_pos:
  assumes "0 < n"
  shows "(decrement 1 ^^ n) c = max 0 (c - int n)"
proof -
  from assms obtain m where n: "n = Suc m" by (cases n) auto
  have "(decrement 1 ^^ n) c = (decrement 1 ^^ m) (decrement 1 c)"
    by (simp add: n funpow_swap1)
  also have "\<dots> = max 0 (decrement 1 c - int m)"
    by (rule decrement_one_funpow) (simp add: decrement_def)
  also have "\<dots> = max 0 (c - int n)"
    by (simp add: n decrement_def)
  finally show ?thesis .
qed

lemma run_ops_decrements: "run_ops (replicate n (Decrement 1)) c = (decrement 1 ^^ n) c"
  by (induction n arbitrary: c) (simp_all add: run_ops_def funpow_swap1)

text \<open>
  Claim C1. Every increment sets the tally to \<open>max 0 (tally + step)\<close> and every
  decrement to \<open>max 0 (tally - step)\<close>, so the tally is not negative after any of them.
  Under every sequence of increments and decrements a tally that starts at \<open>T \<ge> 0\<close>
  stays non-negative (and after at least one operation the tally is non-negative
  whatever it was before), and \<open>N\<close> decrements of step 1 from \<open>T\<close> give
  \<open>max 0 (T - N)\<close>.
\<close>

theorem tally_never_negative:
  "increment step c = max 0 (c + step)
   \<and> decrement step c = max 0 (c - step)
   \<and> 0 \<le> increment step c \<and> 0 \<le> decrement step c
   \<and> (0 \<le> T \<or> ops \<noteq> [] \<longrightarrow> 0 \<le> run_ops ops T)
   \<and> (0 \<le> T \<or> 0 < N \<longrightarrow>
        run_ops (replicate N (Decrement 1)) T = max 0 (T - int N)
      \<and> (decrement 1 ^^ N) T = max 0 (T - int N))"
proof -
  have inc: "increment step c = max 0 (c + step)" by (simp add: increment_def)
  have dec: "decrement step c = max 0 (c - step)" by (simp add: decrement_def)
  have run: "0 \<le> T \<or> ops \<noteq> [] \<longrightarrow> 0 \<le> run_ops ops T"
    using run_ops_nonneg [of T ops] by blast
  have pow: "0 \<le> T \<or> 0 < N \<longrightarrow> (decrement 1 ^^ N) T = max 0 (T - int N)"
    using decrement_one_funpow [of T N] decrement_one_funpow_pos [of N T] by blast
  show ?thesis using inc dec run pow by (simp add: run_ops_decrements)
qed

theorem tally_never_negative_witness:
  "run_ops [Decrement 1, Decrement 1, Decrement 1, Increment 4, Decrement 5] 2 = 0
   \<and> 0 \<le> run_ops [Decrement 1, Increment 1, Decrement 3] 2
   \<and> run_ops (replicate 3 (Decrement 1)) 2 = 0
   \<and> run_ops (replicate 3 (Decrement 1)) 7 = 4
   \<and> increment 1 2 = 3 \<and> decrement 1 0 = 0"
proof -
  have a: "(0::int) \<le> 2" and b: "(0::int) \<le> 7" by simp_all
  from tally_never_negative [where T = 2 and N = 3 and ops = "[Decrement 1, Increment 1, Decrement 3]"] a
  have 1: "0 \<le> run_ops [Decrement 1, Increment 1, Decrement 3] 2"
    and 2: "run_ops (replicate 3 (Decrement 1)) 2 = max 0 (2 - int 3)" by simp_all
  from tally_never_negative [where T = 7 and N = 3] b
  have 3: "run_ops (replicate 3 (Decrement 1)) 7 = max 0 (7 - int 3)" by simp
  from tally_never_negative [where step = 1 and c = 2]
  have 4: "increment 1 2 = max 0 (2 + 1)" by simp
  from tally_never_negative [where step = 1 and c = 0]
  have 5: "decrement 1 0 = max 0 (0 - 1)" by simp
  have 6: "run_ops [Decrement 1, Decrement 1, Decrement 1, Increment 4, Decrement 5] 2 = 0"
    by (simp add: run_ops_def increment_def decrement_def)
  from 1 2 3 4 5 6 show ?thesis by simp
qed

section \<open>Properties of the streak calculator\<close>















section \<open>Properties of the ledger operations\<close>

lemma update_absent: "map_of h k = None \<Longrightarrow> AList.update k v h = h @ [(k, v)]"
  by (induction h) (auto split: if_splits)

lemma delete_absent: "map_of h k = None \<Longrightarrow> AList.delete k h = h"
  by (induction h) (auto split: if_splits)

lemma delete_filter: "AList.delete k h = filter (\<lambda>p. fst p \<noteq> k) h"
  by (induction h) auto

lemma upsertToday_same:
  "map_of h k = Some r \<Longrightarrow> total r = c \<Longrightarrow> upsertToday k c h = h"
  by (simp add: upsertToday_def)

lemma upsertToday_changed:
  assumes "0 \<le> c" and "\<not> (\<exists>r. map_of h k = Some r \<and> total r = c)"
  shows "upsertToday k c h = AList.update k \<lparr>date = k, total = c\<rparr> h"
  using assms by (cases "map_of h k") (auto simp: upsertToday_def)

lemma upsertToday_twice:
  "0 \<le> c \<Longrightarrow> upsertToday k c (upsertToday k c h) = upsertToday k c h"
  by (cases "map_of h k") (auto simp: upsertToday_def Let_def update_conv')

text \<open>
  Claim C6, as the code has it. The effect is guarded by \<open>if (count < 0) return\<close>: for
  a negative total it leaves the ledger as it is, whatever the ledger holds. For every
  ledger, date and total that is not negative it is an idempotent upsert: when the
  record of that date already has this total the state is returned unchanged;
  otherwise the ledger maps the date to \<open>{date, total}\<close> and every other date to what
  it was mapped to before, and its list of keys is the old one, with the date added at
  the end when it was not a key (so one record is replaced or created, and none is
  duplicated). The tally is never changed, and running the effect twice gives the
  same state as running it once.
\<close>

theorem upsertEffect_idempotent:
  "(count st < 0 \<longrightarrow> upsertEffect today st = st)
   \<and> (0 \<le> count st \<longrightarrow>
        ((\<exists>r. map_of (history st) (todayKey today) = Some r \<and> total r = count st)
            \<longrightarrow> upsertEffect today st = st)
      \<and> (\<not> (\<exists>r. map_of (history st) (todayKey today) = Some r \<and> total r = count st)
            \<longrightarrow> map_of (history (upsertEffect today st))
                  = (map_of (history st))
                      (todayKey today \<mapsto> \<lparr>date = todayKey today, total = count st\<rparr>)
              \<and> map fst (history (upsertEffect today st))
                  = (if todayKey today \<in> set (map fst (history st)) then map fst (history st)
                     else map fst (history st) @ [todayKey today])))
   \<and> count (upsertEffect today st) = count st
   \<and> upsertEffect today (upsertEffect today st) = upsertEffect today st"
proof -
  have neg: "count st < 0 \<longrightarrow> upsertEffect today st = st"
    by (simp add: upsertEffect_def)
  have same: "(\<exists>r. map_of (history st) (todayKey today) = Some r \<and> total r = count st)
      \<longrightarrow> upsertEffect today st = st"
    by (auto simp: upsertEffect_def upsertToday_same)
  have changed: "0 \<le> count st \<longrightarrow>
      \<not> (\<exists>r. map_of (history st) (todayKey today) = Some r \<and> total r = count st) \<longrightarrow>
      history (upsertEffect today st)
        = AList.update (todayKey today) \<lparr>date = todayKey today, total = count st\<rparr> (history st)"
    by (simp add: upsertEffect_def upsertToday_changed)
  have cnt: "count (upsertEffect today st) = count st"
    by (simp add: upsertEffect_def)
  have twice: "upsertEffect today (upsertEffect today st) = upsertEffect today st"
    by (simp add: upsertEffect_def upsertToday_twice)
  show ?thesis
    using neg same changed cnt twice by (simp add: update_conv' update_keys)
qed

theorem upsertEffect_idempotent_witness:
  "upsertEffect \<lparr>year = 2024, month = 0, day = 5\<rparr>
     \<lparr>count = 7, history = [(''2024-01-04'', \<lparr>date = ''2024-01-04'', total = 2\<rparr>),
                            (''2024-01-05'', \<lparr>date = ''2024-01-05'', total = 6\<rparr>)]\<rparr>
   = \<lparr>count = 7, history = [(''2024-01-04'', \<lparr>date = ''2024-01-04'', total = 2\<rparr>),
                              (''2024-01-05'', \<lparr>date = ''2024-01-05'', total = 7\<rparr>)]\<rparr>
   \<and> upsertEffect \<lparr>year = 2024, month = 0, day = 5\<rparr>
     \<lparr>count = 7, history = [(''2024-01-04'', \<lparr>date = ''2024-01-04'', total = 2\<rparr>),
                            (''2024-01-05'', \<lparr>date = ''2024-01-05'', total = 7\<rparr>)]\<rparr>
   = \<lparr>count = 7, history = [(''2024-01-04'', \<lparr>date = ''2024-01-04'', total = 2\<rparr>),
                              (''2024-01-05'', \<lparr>date = ''2024-01-05'', total = 7\<rparr>)]\<rparr>
   \<and> upsertEffect \<lparr>year = 2024, month = 0, day = 5\<rparr>
     \<lparr>count = - 1, history = [(''2024-01-05'', \<lparr>date = ''2024-01-05'', total = 6\<rparr>)]\<rparr>
   = \<lparr>count = - 1, history = [(''2024-01-05'', \<lparr>date = ''2024-01-05'', total = 6\<rparr>)]\<rparr>"
proof -
  let ?d = "\<lparr>year = 2024, month = 0, day = 5\<rparr>"
  let ?a = "\<lparr>count = 7, history = [(''2024-01-04'', \<lparr>date = ''2024-01-04'', total = 2\<rparr>),
                            (''2024-01-05'', \<lparr>date = ''2024-01-05'', total = 6\<rparr>)]\<rparr>"
  let ?b = "\<lparr>count = - 1, history = [(''2024-01-05'', \<lparr>date = ''2024-01-05'', total = 6\<rparr>)]\<rparr>"
  have k: "todayKey ?d = ''2024-01-05''" by code_simp
  have a: "upsertEffect ?d ?a
      = \<lparr>count = 7, history = [(''2024-01-04'', \<lparr>date = ''2024-01-04'', total = 2\<rparr>),
                              (''2024-01-05'', \<lparr>date = ''2024-01-05'', total = 7\<rparr>)]\<rparr>"
    by (simp add: upsertEffect_def upsertToday_def Let_def k)
  from upsertEffect_idempotent [of ?a ?d] have "upsertEffect ?d (upsertEffect ?d ?a) = upsertEffect ?d ?a" by simp
  moreover from upsertEffect_idempotent [of ?b ?d] have "upsertEffect ?d ?b = ?b" by simp
  ultimately show ?thesis by (simp add: a)
qed

text \<open>
  The claim as the spec words it, for every total, fails at a negative one: with an
  empty ledger and the total -5 the upsert creates no record.
\<close>

theorem upsertEffect_negative_total_counterexample:
  "todayKey \<lparr>year = 2024, month = 0, day = 5\<rparr> = ''2024-01-05''
   \<and> map_of (history \<lparr>count = - 5, history = []\<rparr>) ''2024-01-05'' = None
   \<and> map_of (history (upsertEffect \<lparr>year = 2024, month = 0, day = 5\<rparr>
                \<lparr>count = - 5, history = []\<rparr>)) ''2024-01-05''
       \<noteq> Some \<lparr>date = ''2024-01-05'', total = - 5\<rparr>"
proof -
  have "todayKey \<lparr>year = 2024, month = 0, day = 5\<rparr> = ''2024-01-05''" by code_simp
  then show ?thesis by (simp add: upsertEffect_def)
qed

text \<open>
  Claim C5. When the ledger has no record for today, the day-rollover check sets the
  tally to 0 and inserts the record \<open>{date: today, total: 0}\<close> (at the end of the ledger,
  every other record unchanged); when a record for today exists the check changes
  neither the tally nor the ledger. Running it a second time changes nothing.
\<close>

theorem checkDayChange_rollover:
  "(map_of (history st) (todayKey today) = None \<longrightarrow>
        count (checkDayChange today st) = 0
      \<and> history (checkDayChange today st)
          = history st @ [(todayKey today, \<lparr>date = todayKey today, total = 0\<rparr>)]
      \<and> map_of (history (checkDayChange today st))
          = (map_of (history st))(todayKey today \<mapsto> \<lparr>date = todayKey today, total = 0\<rparr>))
   \<and> (map_of (history st) (todayKey today) \<noteq> None \<longrightarrow> checkDayChange today st = st)
   \<and> checkDayChange today (checkDayChange today st) = checkDayChange today st"
proof -
  let ?k = "todayKey today"
  let ?r = "\<lparr>date = todayKey today, total = 0\<rparr>"
  have h: "map_of (history st) ?k = None \<longrightarrow>
      history (checkDayChange today st) = AList.update ?k ?r (history st)
      \<and> count (checkDayChange today st) = 0"
    by (simp add: checkDayChange_def Let_def)
  have keep: "map_of (history st) ?k \<noteq> None \<longrightarrow> checkDayChange today st = st"
    by (simp add: checkDayChange_def Let_def)
  have again: "checkDayChange today (checkDayChange today st) = checkDayChange today st"
    by (simp add: checkDayChange_def Let_def update_conv')
  have app: "map_of (history st) ?k = None \<longrightarrow>
      AList.update ?k ?r (history st) = history st @ [(?k, ?r)]"
    by (simp add: update_absent)
  have "map_of (AList.update ?k ?r (history st)) = (map_of (history st))(?k \<mapsto> ?r)"
    by (rule update_conv')
  with h keep again app show ?thesis by metis
qed

theorem checkDayChange_rollover_witness:
  "checkDayChange \<lparr>year = 2024, month = 0, day = 5\<rparr>
     \<lparr>count = 7, history = [(''2024-01-04'', \<lparr>date = ''2024-01-04'', total = 7\<rparr>)]\<rparr>
   = \<lparr>count = 0, history = [(''2024-01-04'', \<lparr>date = ''2024-01-04'', total = 7\<rparr>),
                              (''2024-01-05'', \<lparr>date = ''2024-01-05'', total = 0\<rparr>)]\<rparr>
   \<and> checkDayChange \<lparr>year = 2024, month = 0, day = 5\<rparr>
     \<lparr>count = 7, history = [(''2024-01-05'', \<lparr>date = ''2024-01-05'', total = 3\<rparr>)]\<rparr>
   = \<lparr>count = 7, history = [(''2024-01-05'', \<lparr>date = ''2024-01-05'', total = 3\<rparr>)]\<rparr>"
proof -
  let ?d = "\<lparr>year = 2024, month = 0, day = 5\<rparr>"
  let ?a = "\<lparr>count = 7, history = [(''2024-01-04'', \<lparr>date = ''2024-01-04'', total = 7\<rparr>)]\<rparr>"
  let ?b = "\<lparr>count = 7, history = [(''2024-01-05'', \<lparr>date = ''2024-01-05'', total = 3\<rparr>)]\<rparr>"
  have k: "todayKey ?d = ''2024-01-05''" by code_simp
  have "map_of (history ?a) (todayKey ?d) = None" by (simp add: k)
  with checkDayChange_rollover [of ?a ?d]
  have "count (checkDayChange ?d ?a) = 0"
    "history (checkDayChange ?d ?a) = history ?a @ [(todayKey ?d, \<lparr>date = todayKey ?d, total = 0\<rparr>)]"
    by simp_all
  then have a: "checkDayChange ?d ?a
      = \<lparr>count = 0, history = [(''2024-01-04'', \<lparr>date = ''2024-01-04'', total = 7\<rparr>),
                              (''2024-01-05'', \<lparr>date = ''2024-01-05'', total = 0\<rparr>)]\<rparr>"
    by (simp add: k AppState.equality)
  have "map_of (history ?b) (todayKey ?d) \<noteq> None" by (simp add: k)
  with checkDayChange_rollover [of ?b ?d] have "checkDayChange ?d ?b = ?b" by simp
  with a show ?thesis by simp
qed

lemma clearToday_handler:
  "history (clearToday today st) = filter (\<lambda>p. fst p \<noteq> todayKey today) (history st)
   \<and> count (clearToday today st) = count st
   \<and> map_of (history (clearToday today st)) (todayKey today) = None"
proof (cases "map_of (history st) (todayKey today) = None")
  case True
  then have "clearToday today st = st" by (simp add: clearToday_def Let_def)
  moreover have "filter (\<lambda>p. fst p \<noteq> todayKey today) (history st) = history st"
    using delete_absent [OF True] by (simp add: delete_filter)
  ultimately show ?thesis using True by simp
next
  case False
  then have "history (clearToday today st) = AList.delete (todayKey today) (history st)"
    and "count (clearToday today st) = count st"
    by (auto simp: clearToday_def Let_def)
  then show ?thesis by (simp add: delete_conv' delete_filter [symmetric])
qed

text \<open>
  Claim C9, as the code has it. The handler \<open>clearToday\<close> itself removes only today's
  record and does not write the tally. When today had a record, that ledger update sets
  the day-rollover effect up again, and its check finds no record for today: once the
  update is committed the tally is 0, the ledger again has a record for today, with
  total 0 and last in order, and every other date has the record it had; this state is
  left unchanged by the two effects that follow. When today had no record, nothing
  changes.
\<close>

theorem clearToday_then_rollover:
  "history (clearToday today st) = filter (\<lambda>p. fst p \<noteq> todayKey today) (history st)
   \<and> count (clearToday today st) = count st
   \<and> (map_of (history st) (todayKey today) = None \<longrightarrow> clearToday_committed today st = st)
   \<and> (map_of (history st) (todayKey today) \<noteq> None \<longrightarrow>
        count (clearToday_committed today st) = 0
      \<and> history (clearToday_committed today st)
          = filter (\<lambda>p. fst p \<noteq> todayKey today) (history st)
            @ [(todayKey today, \<lparr>date = todayKey today, total = 0\<rparr>)]
      \<and> map_of (history (clearToday_committed today st)) (todayKey today)
          = Some \<lparr>date = todayKey today, total = 0\<rparr>
      \<and> (\<forall>k. k \<noteq> todayKey today \<longrightarrow>
            map_of (history (clearToday_committed today st)) k = map_of (history st) k)
      \<and> upsertEffect today (clearToday_committed today st) = clearToday_committed today st
      \<and> checkDayChange today (clearToday_committed today st) = clearToday_committed today st)"
proof -
  let ?k = "todayKey today"
  let ?r = "\<lparr>date = todayKey today, total = 0\<rparr>"
  let ?c = "clearToday_committed today st"
  note h = clearToday_handler [of today st]
  have none: "map_of (history st) ?k = None \<longrightarrow> ?c = st"
    by (simp add: clearToday_committed_def Let_def)
  have some: "map_of (history st) ?k \<noteq> None \<longrightarrow> ?c = checkDayChange today (clearToday today st)"
    by (simp add: clearToday_committed_def Let_def)
  have hn: "map_of (history (clearToday today st)) ?k = None" using h by blast
  have hf: "history (clearToday today st) = filter (\<lambda>p. fst p \<noteq> ?k) (history st)"
    using h by blast
  have "checkDayChange today (clearToday today st)
      = (clearToday today st)\<lparr>count := 0,
           history := history (clearToday today st) @ [(?k, ?r)]\<rparr>"
    unfolding checkDayChange_def Let_def by (simp only: hn update_absent [OF hn] refl if_True)
  then have chk: "checkDayChange today (clearToday today st)
      = (clearToday today st)\<lparr>count := 0,
           history := filter (\<lambda>p. fst p \<noteq> ?k) (history st) @ [(?k, ?r)]\<rparr>"
    by (simp only: hf)
  have cnt: "map_of (history st) ?k \<noteq> None \<longrightarrow> count ?c = 0"
    using some chk by simp
  have hist: "map_of (history st) ?k \<noteq> None \<longrightarrow>
      history ?c = filter (\<lambda>p. fst p \<noteq> ?k) (history st) @ [(?k, ?r)]"
    using some chk by simp
  have fn: "map_of (filter (\<lambda>p. fst p \<noteq> ?k) (history st)) ?k = None"
    using hn unfolding hf .
  have today: "map_of (filter (\<lambda>p. fst p \<noteq> ?k) (history st) @ [(?k, ?r)]) ?k = Some ?r"
    by (simp add: map_add_def fn)
  have others: "\<forall>k. k \<noteq> ?k \<longrightarrow>
      map_of (filter (\<lambda>p. fst p \<noteq> ?k) (history st) @ [(?k, ?r)]) k = map_of (history st) k"
    by (auto simp: delete_filter [symmetric] delete_conv' map_add_def split: option.splits)
  have ups: "map_of (history st) ?k \<noteq> None \<longrightarrow> upsertEffect today ?c = ?c"
    using cnt hist today by (auto simp: upsertEffect_def upsertToday_def Let_def)
  have again: "map_of (history st) ?k \<noteq> None \<longrightarrow> checkDayChange today ?c = ?c"
    using hist today by (auto simp: checkDayChange_def Let_def)
  show ?thesis using h none cnt hist today others ups again by simp
qed

theorem clearToday_then_rollover_witness:
  "clearToday_committed \<lparr>year = 2024, month = 0, day = 5\<rparr>
     \<lparr>count = 0, history = [(''2024-01-04'', \<lparr>date = ''2024-01-04'', total = 2\<rparr>)]\<rparr>
   = \<lparr>count = 0, history = [(''2024-01-04'', \<lparr>date = ''2024-01-04'', total = 2\<rparr>)]\<rparr>
   \<and> count (clearToday_committed \<lparr>year = 2024, month = 0, day = 5\<rparr>
       \<lparr>count = 3, history = [(''2024-01-05'', \<lparr>date = ''2024-01-05'', total = 3\<rparr>),
                              (''2024-01-04'', \<lparr>date = ''2024-01-04'', total = 2\<rparr>)]\<rparr>) = 0
   \<and> history (clearToday_committed \<lparr>year = 2024, month = 0, day = 5\<rparr>
       \<lparr>count = 3, history = [(''2024-01-05'', \<lparr>date = ''2024-01-05'', total = 3\<rparr>),
                              (''2024-01-04'', \<lparr>date = ''2024-01-04'', total = 2\<rparr>)]\<rparr>)
     = [(''2024-01-04'', \<lparr>date = ''2024-01-04'', total = 2\<rparr>),
        (''2024-01-05'', \<lparr>date = ''2024-01-05'', total = 0\<rparr>)]"
proof -
  let ?d = "\<lparr>year = 2024, month = 0, day = 5\<rparr>"
  let ?a = "\<lparr>count = 0, history = [(''2024-01-04'', \<lparr>date = ''2024-01-04'', total = 2\<rparr>)]\<rparr>"
  let ?b = "\<lparr>count = 3, history = [(''2024-01-05'', \<lparr>date = ''2024-01-05'', total = 3\<rparr>),
                              (''2024-01-04'', \<lparr>date = ''2024-01-04'', total = 2\<rparr>)]\<rparr>"
  have k: "todayKey ?d = ''2024-01-05''" by code_simp
  have "map_of (history ?a) (todayKey ?d) = None" by (simp add: k)
  with clearToday_then_rollover [of ?d ?a] have 1: "clearToday_committed ?d ?a = ?a" by blast
  have "map_of (history ?b) (todayKey ?d) \<noteq> None" by (simp add: k)
  with clearToday_then_rollover [of ?d ?b]
  have "count (clearToday_committed ?d ?b) = 0"
    and "history (clearToday_committed ?d ?b)
          = filter (\<lambda>p. fst p \<noteq> todayKey ?d) (history ?b)
            @ [(todayKey ?d, \<lparr>date = todayKey ?d, total = 0\<rparr>)]" by blast+
  with 1 show ?thesis by (simp add: k)
qed

text \<open>
  The claim as the spec words it fails whenever today has a record: with the tally at 7
  and today's record at 7, the state the component is left in after \<open>clearToday\<close> has
  the tally at 0 and a record for today.
\<close>

theorem clearToday_tally_reset_counterexample:
  "todayKey \<lparr>year = 2024, month = 0, day = 5\<rparr> = ''2024-01-05''
   \<and> clearToday_committed \<lparr>year = 2024, month = 0, day = 5\<rparr>
       \<lparr>count = 7, history = [(''2024-01-04'', \<lparr>date = ''2024-01-04'', total = 2\<rparr>),
                              (''2024-01-05'', \<lparr>date = ''2024-01-05'', total = 7\<rparr>)]\<rparr>
     = \<lparr>count = 0, history = [(''2024-01-04'', \<lparr>date = ''2024-01-04'', total = 2\<rparr>),
                                (''2024-01-05'', \<lparr>date = ''2024-01-05'', total = 0\<rparr>)]\<rparr>"
proof -
  have "todayKey \<lparr>year = 2024, month = 0, day = 5\<rparr> = ''2024-01-05''" by code_simp
  then show ?thesis
    by (simp add: clearToday_committed_def clearToday_def checkDayChange_def Let_def)
qed

section \<open>Properties of the hold controller\<close>

lemma startHold_idle: "idle w \<Longrightarrow> startHold w = held w 0"
  by (cases w, cases "holdRef w") (auto simp: idle_def startHold_def held_def fn_def setTimeout_def)

lemma elapse1_held_early:
  assumes "Suc t < 300"
  shows "elapse1 (held w t) = held w (Suc t)"
  using assms by (simp add: elapse1_def held_def)

lemma elapse1_held_arm:
  "elapse1 (held w 299) = held w 300"
  by (simp add: elapse1_def held_def fire_def setInterval_def)

lemma div_step:
  fixes t :: nat
  assumes "300 \<le> t"
  shows "(Suc t - 300) div 150 = (if 450 + 150 * ((t - 300) div 150) \<le> Suc t then Suc ((t - 300) div 150) else (t - 300) div 150)"
    and "450 + 150 * ((t - 300) div 150) \<le> Suc t \<Longrightarrow> Suc t = 450 + 150 * ((t - 300) div 150)"
proof -
  define q where "q = (t - 300) div 150"
  define r where "r = (t - 300) mod 150"
  have t: "t = 300 + 150 * q + r" and r: "r < 150"
    using assms by (simp_all add: q_def r_def)
  have "(Suc t - 300) div 150 = (150 * q + Suc r) div 150" using t by simp
  also have "\<dots> = q + Suc r div 150" by simp
  also have "\<dots> = (if 149 \<le> r then Suc q else q)" using r by (auto simp: div_eq_0_iff le_div_geq)
  finally show "(Suc t - 300) div 150 = (if 450 + 150 * ((t - 300) div 150) \<le> Suc t then Suc ((t - 300) div 150) else (t - 300) div 150)"
    unfolding q_def [symmetric] using t r by auto
  show "450 + 150 * ((t - 300) div 150) \<le> Suc t \<Longrightarrow> Suc t = 450 + 150 * ((t - 300) div 150)"
    unfolding q_def [symmetric] using t r by auto
qed

lemma held_late:
  assumes "300 \<le> t" and "(t - 300) div 150 = q"
  shows "held w t =
     w\<lparr>clock := clock w + t,
       timers := [(nextId w + 1, \<lparr>due = clock w + 450 + 150 * q,
                                   period = Some 150, action = Tick\<rparr>)],
       nextId := nextId w + 2,
       holdRef := \<lparr>delay = Some (nextId w), repeat = Some (nextId w + 1)\<rparr>,
       fired := fired w @ clock w # map (\<lambda>k. clock w + 450 + 150 * k) [0..<q]\<rparr>"
  using assms by (simp add: held_def)

lemma elapse1_held_late:
  assumes "300 \<le> t"
  shows "elapse1 (held w t) = held w (Suc t)"
proof -
  define q where "q = (t - 300) div 150"
  have cur: "held w t =
     w\<lparr>clock := clock w + t,
       timers := [(nextId w + 1, \<lparr>due = clock w + 450 + 150 * q,
                                   period = Some 150, action = Tick\<rparr>)],
       nextId := nextId w + 2,
       holdRef := \<lparr>delay = Some (nextId w), repeat = Some (nextId w + 1)\<rparr>,
       fired := fired w @ clock w # map (\<lambda>k. clock w + 450 + 150 * k) [0..<q]\<rparr>"
    using assms by (rule held_late) (simp add: q_def)
  show ?thesis
  proof (cases "450 + 150 * q \<le> Suc t")
    case True
    with div_step [OF assms] have eq: "Suc t = 450 + 150 * q"
      and dv: "(Suc t - 300) div 150 = Suc q" by (simp_all add: q_def)
    have nxt: "held w (Suc t) =
     w\<lparr>clock := clock w + Suc t,
       timers := [(nextId w + 1, \<lparr>due = clock w + 450 + 150 * Suc q,
                                   period = Some 150, action = Tick\<rparr>)],
       nextId := nextId w + 2,
       holdRef := \<lparr>delay = Some (nextId w), repeat = Some (nextId w + 1)\<rparr>,
       fired := fired w @ clock w # map (\<lambda>k. clock w + 450 + 150 * k) [0..<Suc q]\<rparr>"
      by (rule held_late) (use assms dv in simp_all)
    from eq have eq': "Suc (clock w + t) = clock w + (450 + 150 * q)" by simp
    show ?thesis unfolding cur nxt
      by (simp add: elapse1_def fire_def fn_def eq eq')
  next
    case False
    with div_step(1) [OF assms] have dv: "(Suc t - 300) div 150 = q" by (simp add: q_def)
    have nxt: "held w (Suc t) =
     w\<lparr>clock := clock w + Suc t,
       timers := [(nextId w + 1, \<lparr>due = clock w + 450 + 150 * q,
                                   period = Some 150, action = Tick\<rparr>)],
       nextId := nextId w + 2,
       holdRef := \<lparr>delay = Some (nextId w), repeat = Some (nextId w + 1)\<rparr>,
       fired := fired w @ clock w # map (\<lambda>k. clock w + 450 + 150 * k) [0..<q]\<rparr>"
      by (rule held_late) (use assms dv in simp_all)
    show ?thesis unfolding cur nxt using False
      by (simp add: elapse1_def fire_def fn_def)
  qed
qed

lemma elapse_held: "elapse t (held w 0) = held w t"
proof (induction t)
  case 0
  then show ?case by (simp add: elapse_def)
next
  case (Suc t)
  have "elapse (Suc t) (held w 0) = elapse1 (held w t)"
    using Suc by (simp add: elapse_def)
  also have "\<dots> = held w (Suc t)"
  proof -
    consider "Suc t < 300" | "t = 299" | "300 \<le> t" by linarith
    then show ?thesis
      by cases (simp_all add: elapse1_held_early elapse1_held_arm elapse1_held_late)
  qed
  finally show ?case .
qed

lemma stopHold_fired: "fired (stopHold w) = fired w"
  by (simp add: stopHold_def clearTimeout_def clearInterval_def split: option.splits)

lemma stopHold_held: "idle (stopHold (held w t))"
  by (simp add: idle_def stopHold_def held_def clearTimeout_def clearInterval_def)

lemma fire_unarmed: "map_of (timers w) h = None \<Longrightarrow> fire h w = w"
  by (simp add: fire_def)

lemma elapse_idle: "timers w = [] \<Longrightarrow> elapse n w = w\<lparr>clock := clock w + n\<rparr>"
proof (induction n)
  case 0
  then show ?case by (simp add: elapse_def)
next
  case (Suc n)
  then have "elapse (Suc n) w = elapse1 (w\<lparr>clock := clock w + n\<rparr>)"
    by (simp add: elapse_def)
  with Suc.prems show ?case by (simp add: elapse1_def)
qed

lemma press_hold: "idle w \<Longrightarrow> elapse d (startHold w) = held w d"
  by (simp add: startHold_idle elapse_held)

text \<open>
  Claim C3. A press begins in the released state at time \<open>clock w\<close>, lasts \<open>d\<close>
  milliseconds and ends with a release. The action is called once at press-start; when
  the release comes before 300 ms that is the only call; when the press lasts at least
  300 ms the calls after the first come every 150 ms (at 450, 600, ... ms after
  press-start) for as long as the button is held, a call that falls due in the
  millisecond of the release coming before it. The release itself calls nothing and
  leaves no timer armed, so the delivery of any timer after the release, and any
  amount of time passing, change nothing.
\<close>

theorem hold_controller_ticks:
  assumes "idle w"
  shows "fired (startHold w) = fired w @ [clock w]
       \<and> (d < 300 \<longrightarrow> fired (stopHold (elapse d (startHold w))) = fired w @ [clock w])
       \<and> fired (stopHold (elapse d (startHold w)))
           = fired w @ clock w # map (\<lambda>k. clock w + 450 + 150 * k) [0..<(d - 300) div 150]
       \<and> fired (stopHold (elapse d (startHold w))) = fired (elapse d (startHold w))
       \<and> idle (stopHold (elapse d (startHold w)))
       \<and> fire h (stopHold (elapse d (startHold w))) = stopHold (elapse d (startHold w))
       \<and> fired (elapse e (stopHold (elapse d (startHold w))))
           = fired (stopHold (elapse d (startHold w)))"
proof -
  let ?r = "stopHold (elapse d (startHold w))"
  have h: "elapse d (startHold w) = held w d" using assms by (rule press_hold)
  have 1: "fired (startHold w) = fired w @ [clock w]"
    using assms by (simp add: startHold_idle held_def)
  have 3: "fired ?r = fired w @ clock w # map (\<lambda>k. clock w + 450 + 150 * k) [0..<(d - 300) div 150]"
    by (simp add: stopHold_fired h held_def)
  have 2: "d < 300 \<longrightarrow> fired ?r = fired w @ [clock w]"
    by (simp add: 3)
  have 4: "fired ?r = fired (elapse d (startHold w))" by (rule stopHold_fired)
  have 5: "idle ?r" unfolding h by (rule stopHold_held)
  then have t: "timers ?r = []" by (simp add: idle_def)
  then have 6: "fire h ?r = ?r" by (simp add: fire_unarmed)
  have 7: "fired (elapse e ?r) = fired ?r" by (simp add: elapse_idle [OF t])
  from 1 2 3 4 5 6 7 show ?thesis by blast
qed

theorem hold_controller_ticks_witness:
  "idle \<lparr>clock = 1000, timers = [], nextId = 1,
          holdRef = \<lparr>delay = None, repeat = None\<rparr>, fired = []\<rparr>
   \<and> fired (stopHold (elapse 299 (startHold
        \<lparr>clock = 1000, timers = [], nextId = 1,
          holdRef = \<lparr>delay = None, repeat = None\<rparr>, fired = []\<rparr>))) = [1000]
   \<and> fired (stopHold (elapse 620 (startHold
        \<lparr>clock = 1000, timers = [], nextId = 1,
          holdRef = \<lparr>delay = None, repeat = None\<rparr>, fired = []\<rparr>))) = [1000, 1450, 1600]"
proof -
  let ?w = "\<lparr>clock = 1000, timers = [], nextId = 1,
          holdRef = \<lparr>delay = None, repeat = None\<rparr>, fired = []\<rparr>"
  have i: "idle ?w" by (simp add: idle_def)
  have u: "[0..<(620 - 300) div 150] = [0, 1]" by (simp add: upt_rec)
  from hold_controller_ticks [OF i, of 299] hold_controller_ticks [OF i, of 620]
  show ?thesis using i u by simp
qed

text \<open>
  Claim C4, as the code has it. \<open>startHold\<close> has no guard against a press-start while a
  timer is armed: whatever the state, it calls the action, registers one more delay
  timer and stores the new handle over the old one. At most one hold session is armed
  for a button provided each press-start comes in the released state (no timer armed,
  as \<open>stopHold\<close> leaves it): then exactly one timer is armed at every moment of the
  press, and none after the release.
\<close>

theorem startHold_always_registers:
  "timers (startHold w)
     = timers w @ [(nextId w, \<lparr>due = clock w + 300, period = None, action = ArmRepeat\<rparr>)]
   \<and> fired (startHold w) = fired w @ [clock w]
   \<and> delay (holdRef (startHold w)) = Some (nextId w)
   \<and> (idle w \<longrightarrow> length (timers (elapse d (startHold w))) = 1
                 \<and> idle (stopHold (elapse d (startHold w))))"
proof -
  have "idle w \<longrightarrow> length (timers (elapse d (startHold w))) = 1"
    by (simp add: press_hold held_def)
  moreover have "idle w \<longrightarrow> idle (stopHold (elapse d (startHold w)))"
    by (simp add: press_hold stopHold_held)
  ultimately show ?thesis
    by (simp add: startHold_def fn_def setTimeout_def)
qed

theorem startHold_always_registers_witness:
  "idle \<lparr>clock = 0, timers = [], nextId = 1,
          holdRef = \<lparr>delay = None, repeat = None\<rparr>, fired = []\<rparr>
   \<and> length (timers (elapse 500 (startHold
        \<lparr>clock = 0, timers = [], nextId = 1,
          holdRef = \<lparr>delay = None, repeat = None\<rparr>, fired = []\<rparr>))) = 1
   \<and> timers (stopHold (elapse 500 (startHold
        \<lparr>clock = 0, timers = [], nextId = 1,
          holdRef = \<lparr>delay = None, repeat = None\<rparr>, fired = []\<rparr>))) = []"
proof -
  let ?w = "\<lparr>clock = 0, timers = [], nextId = 1,
          holdRef = \<lparr>delay = None, repeat = None\<rparr>, fired = []\<rparr>"
  have i: "idle ?w" by (simp add: idle_def)
  from startHold_always_registers [of ?w 500] i
  have "length (timers (elapse 500 (startHold ?w))) = 1"
    and "idle (stopHold (elapse 500 (startHold ?w)))" by simp_all
  then show ?thesis using i by (simp add: idle_def)
qed

text \<open>
  The claim as the spec words it fails: a second press-start while the delay timer of
  the first is armed registers a second timer and calls the action a second time, and
  the release that follows clears only the timer whose handle was stored last.
\<close>

theorem startHold_reentry_counterexample:
  "timers (startHold \<lparr>clock = 0, timers = [], nextId = 1,
                       holdRef = \<lparr>delay = None, repeat = None\<rparr>, fired = []\<rparr>)
     = [(1, \<lparr>due = 300, period = None, action = ArmRepeat\<rparr>)]
   \<and> timers (startHold (startHold \<lparr>clock = 0, timers = [], nextId = 1,
                       holdRef = \<lparr>delay = None, repeat = None\<rparr>, fired = []\<rparr>))
     = [(1, \<lparr>due = 300, period = None, action = ArmRepeat\<rparr>),
        (2, \<lparr>due = 300, period = None, action = ArmRepeat\<rparr>)]
   \<and> fired (startHold (startHold \<lparr>clock = 0, timers = [], nextId = 1,
                       holdRef = \<lparr>delay = None, repeat = None\<rparr>, fired = []\<rparr>)) = [0, 0]
   \<and> timers (stopHold (startHold (startHold \<lparr>clock = 0, timers = [], nextId = 1,
                       holdRef = \<lparr>delay = None, repeat = None\<rparr>, fired = []\<rparr>)))
     = [(1, \<lparr>due = 300, period = None, action = ArmRepeat\<rparr>)]"
  by (simp add: startHold_def stopHold_def fn_def setTimeout_def clearTimeout_def)

text \<open>
  The older variant behaves differently on a short press: press-start calls nothing,
  and the release calls the action when the delay handle is set and no interval has
  been armed.
\<close>

lemma deferred_variant:
  "fired (startHold_deferred w) = fired w"
  "delay (holdRef w) \<noteq> None \<Longrightarrow> repeat (holdRef w) = None \<Longrightarrow>
     fired (stopHold_deferred w) = fired w @ [clock w]"
  by (auto simp: startHold_deferred_def stopHold_deferred_def setTimeout_def fn_def
        clearTimeout_def clearInterval_def split: option.splits)

section \<open>Properties of the persistent store adapter\<close>

lemma fold_update_distinct:
  "distinct (map fst src) \<Longrightarrow>
     map_of (fold (\<lambda>(k, v). AList.update k v) src tgt) = map_of tgt ++ map_of src"
proof (induction src arbitrary: tgt)
  case Nil
  then show ?case by simp
next
  case (Cons p src)
  obtain k v where p: "p = (k, v)" by (cases p)
  from Cons.prems p have k: "map_of src k = None" and d: "distinct (map fst src)"
    by (auto simp: map_of_eq_None_iff)
  have "map_of (fold (\<lambda>(k, v). AList.update k v) (p # src) tgt)
      = map_of (AList.update k v tgt) ++ map_of src"
    using Cons.IH [OF d] by (simp add: p)
  also have "\<dots> = map_of tgt ++ map_of (p # src)"
    using k by (auto simp: p update_conv' map_add_def fun_eq_iff split: option.splits)
  finally show ?case .
qed

lemma fold_update_keys_distinct:
  "distinct (map fst tgt) \<Longrightarrow> distinct (map fst (fold (\<lambda>(k, v). AList.update k v) src tgt))"
  by (induction src arbitrary: tgt) (auto simp: distinct_update)

lemma spread_defaults: "spread [] (JObject defaultSettings) = defaultSettings"
  by (simp add: spread_def defaultSettings_def)

lemma loadHistory_total:
  "loadHistory P ls =
     Inr (case ls STORAGE_KEYS_HISTORY of
            None \<Rightarrow> JObject []
          | Some raw \<Rightarrow>
              if raw = [] then JObject []
              else (case P raw of Inl e \<Rightarrow> JObject []
                    | Inr obj \<Rightarrow> if truthy obj then obj else JObject []))"
  by (simp add: loadHistory_def try_catch_def split: option.splits sum.splits)

lemma loadSettings_total:
  "loadSettings P ls =
     Inr (JObject (case ls STORAGE_KEYS_SETTINGS of
            None \<Rightarrow> defaultSettings
          | Some raw \<Rightarrow>
              if raw = [] then defaultSettings
              else (case P raw of Inl e \<Rightarrow> defaultSettings
                    | Inr v \<Rightarrow> spread defaultSettings v)))"
  by (simp add: loadSettings_def try_catch_def spread_defaults split: option.splits sum.splits)

lemma spread_object_distinct:
  assumes "distinct (map fst blob)"
  shows "distinct (map fst (spread defaultSettings (JObject blob)))"
    and "map_of (spread defaultSettings (JObject blob)) f
          = (case map_of blob f of Some v \<Rightarrow> Some v | None \<Rightarrow> map_of defaultSettings f)"
proof -
  have "distinct (map fst defaultSettings)" by (simp add: defaultSettings_def)
  then show "distinct (map fst (spread defaultSettings (JObject blob)))"
    by (simp add: spread_def fold_update_keys_distinct)
  show "map_of (spread defaultSettings (JObject blob)) f
          = (case map_of blob f of Some v \<Rightarrow> Some v | None \<Rightarrow> map_of defaultSettings f)"
    using assms by (simp add: spread_def fold_update_distinct map_add_def split: option.splits)
qed

text \<open>
  Claim C7. For every stored text, and whatever \<open>JSON.parse\<close> does with it, loading the
  ledger and loading the settings return a value and never throw. A missing or empty
  text and a text that \<open>JSON.parse\<close> rejects give the fallback: the empty object for the
  ledger, the built-in defaults for the settings. A stored settings object is merged
  over the defaults field by field: a field it has keeps its stored value, a field it
  lacks has its default. (A ledger text that parses is returned as parsed, the empty
  object standing in for a falsy value such as \<open>null\<close>.)
\<close>

theorem load_never_throws:
  "(\<exists>v. loadHistory P ls = Inr v)
   \<and> (\<exists>kvs. loadSettings P ls = Inr (JObject kvs))
   \<and> ((ls STORAGE_KEYS_HISTORY = None \<or> ls STORAGE_KEYS_HISTORY = Some []
        \<or> (\<exists>raw e. ls STORAGE_KEYS_HISTORY = Some raw \<and> P raw = Inl e))
       \<longrightarrow> loadHistory P ls = Inr (JObject []))
   \<and> ((ls STORAGE_KEYS_SETTINGS = None \<or> ls STORAGE_KEYS_SETTINGS = Some []
        \<or> (\<exists>raw e. ls STORAGE_KEYS_SETTINGS = Some raw \<and> P raw = Inl e))
       \<longrightarrow> loadSettings P ls = Inr (JObject defaultSettings))
   \<and> (\<forall>raw blob. ls STORAGE_KEYS_SETTINGS = Some raw \<and> raw \<noteq> []
          \<and> P raw = Inr (JObject blob) \<and> distinct (map fst blob)
       \<longrightarrow> (\<exists>kvs. loadSettings P ls = Inr (JObject kvs) \<and> distinct (map fst kvs)
              \<and> (\<forall>f. map_of kvs f
                    = (case map_of blob f of Some v \<Rightarrow> Some v
                       | None \<Rightarrow> map_of defaultSettings f))))
   \<and> (\<forall>raw v. ls STORAGE_KEYS_HISTORY = Some raw \<and> raw \<noteq> [] \<and> P raw = Inr v
       \<longrightarrow> loadHistory P ls = Inr (if truthy v then v else JObject []))"
proof -
  have 1: "\<exists>v. loadHistory P ls = Inr v" by (simp add: loadHistory_total)
  have 2: "\<exists>kvs. loadSettings P ls = Inr (JObject kvs)" by (simp add: loadSettings_total)
  have 3: "(ls STORAGE_KEYS_HISTORY = None \<or> ls STORAGE_KEYS_HISTORY = Some []
        \<or> (\<exists>raw e. ls STORAGE_KEYS_HISTORY = Some raw \<and> P raw = Inl e))
       \<longrightarrow> loadHistory P ls = Inr (JObject [])"
    by (auto simp: loadHistory_total)
  have 4: "(ls STORAGE_KEYS_SETTINGS = None \<or> ls STORAGE_KEYS_SETTINGS = Some []
        \<or> (\<exists>raw e. ls STORAGE_KEYS_SETTINGS = Some raw \<and> P raw = Inl e))
       \<longrightarrow> loadSettings P ls = Inr (JObject defaultSettings)"
    by (auto simp: loadSettings_total)
  have 5: "\<forall>raw blob. ls STORAGE_KEYS_SETTINGS = Some raw \<and> raw \<noteq> []
          \<and> P raw = Inr (JObject blob) \<and> distinct (map fst blob)
       \<longrightarrow> (\<exists>kvs. loadSettings P ls = Inr (JObject kvs) \<and> distinct (map fst kvs)
              \<and> (\<forall>f. map_of kvs f
                    = (case map_of blob f of Some v \<Rightarrow> Some v
                       | None \<Rightarrow> map_of defaultSettings f)))"
    by (auto simp: loadSettings_total spread_object_distinct)
  have 6: "\<forall>raw v. ls STORAGE_KEYS_HISTORY = Some raw \<and> raw \<noteq> [] \<and> P raw = Inr v
       \<longrightarrow> loadHistory P ls = Inr (if truthy v then v else JObject [])"
    by (auto simp: loadHistory_total)
  from 1 2 3 4 5 6 show ?thesis by blast
qed

theorem load_never_throws_witness:
  "loadHistory
     (\<lambda>s. if s = ''{'' @ [CHR 0x22] @ ''vibrate'' @ [CHR 0x22] @ '':false}''
          then Inr (JObject [(''vibrate'', JBool False)]) else Inl SyntaxError)
     [STORAGE_KEYS_SETTINGS \<mapsto> ''{'' @ [CHR 0x22] @ ''vibrate'' @ [CHR 0x22] @ '':false}'',
      STORAGE_KEYS_HISTORY \<mapsto> ''{broken'']
     = Inr (JObject [])
   \<and> (\<exists>kvs. loadSettings
     (\<lambda>s. if s = ''{'' @ [CHR 0x22] @ ''vibrate'' @ [CHR 0x22] @ '':false}''
          then Inr (JObject [(''vibrate'', JBool False)]) else Inl SyntaxError)
     [STORAGE_KEYS_SETTINGS \<mapsto> ''{'' @ [CHR 0x22] @ ''vibrate'' @ [CHR 0x22] @ '':false}'',
      STORAGE_KEYS_HISTORY \<mapsto> ''{broken'']
     = Inr (JObject kvs)
     \<and> map_of kvs ''vibrate'' = Some (JBool False)
     \<and> map_of kvs ''vibrateMs'' = Some (JNumber 10)
     \<and> map_of kvs ''hapticsOnDecrement'' = Some (JBool False))"
proof -
  let ?raw = "''{'' @ [CHR 0x22] @ ''vibrate'' @ [CHR 0x22] @ '':false}''"
  let ?P = "\<lambda>s. if s = ?raw
          then Inr (JObject [(''vibrate'', JBool False)]) else Inl SyntaxError"
  let ?ls = "[STORAGE_KEYS_SETTINGS \<mapsto> ?raw, STORAGE_KEYS_HISTORY \<mapsto> ''{broken'']"
  have keys: "STORAGE_KEYS_SETTINGS \<noteq> STORAGE_KEYS_HISTORY"
    by (simp add: STORAGE_KEYS_SETTINGS_def STORAGE_KEYS_HISTORY_def)
  have h: "?ls STORAGE_KEYS_HISTORY = Some ''{broken'' \<and> ?P ''{broken'' = Inl SyntaxError"
    by simp
  have s: "?ls STORAGE_KEYS_SETTINGS = Some ?raw \<and> ?raw \<noteq> []
      \<and> ?P ?raw = Inr (JObject [(''vibrate'', JBool False)])
      \<and> distinct (map fst [(''vibrate'', JBool False)])"
    using keys by simp
  from load_never_throws [of ?P ?ls] h have 1: "loadHistory ?P ?ls = Inr (JObject [])"
    by blast
  from load_never_throws [of ?P ?ls] s obtain kvs where
    kvs: "loadSettings ?P ?ls = Inr (JObject kvs)"
    and f: "\<forall>f. map_of kvs f
        = (case map_of [(''vibrate'', JBool False)] f of Some v \<Rightarrow> Some v
           | None \<Rightarrow> map_of defaultSettings f)"
    by blast
  from f have "map_of kvs ''vibrate'' = Some (JBool False)"
    "map_of kvs ''vibrateMs'' = Some (JNumber 10)"
    "map_of kvs ''hapticsOnDecrement'' = Some (JBool False)"
    by (simp_all add: defaultSettings_def)
  with 1 kvs show ?thesis by blast
qed

text \<open>
  Claim C8, as the code has it. The tally restored at startup is always a finite
  number: for a missing or empty text, and for a text that converts to \<open>NaN\<close> or to an
  infinity, it is the fallback 0; for every other text it is the number the text
  converts to. Nothing clamps or rounds it at load time: the restored tally is a
  non-negative integer except when the stored text converts to a finite number that is
  negative or not an integer, and then that number is restored as it is.
\<close>

theorem initialCount_finite:
  "isFinite (initialCount N ls)
   \<and> ((ls STORAGE_KEYS_COUNT = None \<or> ls STORAGE_KEYS_COUNT = Some []
        \<or> (\<exists>s. ls STORAGE_KEYS_COUNT = Some s \<and> \<not> isFinite (N s)))
       \<longrightarrow> initialCount N ls = Finite 0)
   \<and> (\<forall>s q. ls STORAGE_KEYS_COUNT = Some s \<and> s \<noteq> [] \<and> N s = Finite q
       \<longrightarrow> initialCount N ls = Finite q)
   \<and> (isNonNegInteger (initialCount N ls) \<longleftrightarrow>
        \<not> (\<exists>s q. ls STORAGE_KEYS_COUNT = Some s \<and> s \<noteq> [] \<and> N s = Finite q
               \<and> \<not> (0 \<le> q \<and> q = of_int \<lfloor>q\<rfloor>)))"
proof -
  have 1: "isFinite (initialCount N ls)"
    by (simp add: initialCount_def loadNumber_def Let_def split: option.splits)
  have 2: "(ls STORAGE_KEYS_COUNT = None \<or> ls STORAGE_KEYS_COUNT = Some []
        \<or> (\<exists>s. ls STORAGE_KEYS_COUNT = Some s \<and> \<not> isFinite (N s)))
       \<longrightarrow> initialCount N ls = Finite 0"
    by (auto simp: initialCount_def loadNumber_def Let_def)
  have 3: "\<forall>s q. ls STORAGE_KEYS_COUNT = Some s \<and> s \<noteq> [] \<and> N s = Finite q
       \<longrightarrow> initialCount N ls = Finite q"
    by (auto simp: initialCount_def loadNumber_def Let_def)
  have zero: "isNonNegInteger (Finite 0)" by (simp add: isNonNegInteger_def)
  have 4: "isNonNegInteger (initialCount N ls) \<longleftrightarrow>
        \<not> (\<exists>s q. ls STORAGE_KEYS_COUNT = Some s \<and> s \<noteq> [] \<and> N s = Finite q
               \<and> \<not> (0 \<le> q \<and> q = of_int \<lfloor>q\<rfloor>))"
  proof (cases "ls STORAGE_KEYS_COUNT")
    case None
    with 2 zero show ?thesis by simp
  next
    case (Some s)
    show ?thesis
    proof (cases "s = []")
      case True
      with Some 2 zero show ?thesis by simp
    next
      case False
      show ?thesis
      proof (cases "N s")
        case (Finite q)
        with Some False 3 have "initialCount N ls = Finite q" by blast
        with Some False Finite show ?thesis by (simp add: isNonNegInteger_def)
      qed (use Some False 2 zero in auto)
    qed
  qed
  from 1 2 3 4 show ?thesis by blast
qed

theorem initialCount_finite_witness:
  "initialCount Number_decimal [STORAGE_KEYS_COUNT \<mapsto> ''108''] = Finite 108
   \<and> isNonNegInteger (initialCount Number_decimal [STORAGE_KEYS_COUNT \<mapsto> ''108''])
   \<and> initialCount Number_decimal [STORAGE_KEYS_COUNT \<mapsto> ''1O8''] = Finite 0
   \<and> initialCount Number_decimal Map.empty = Finite 0
   \<and> \<not> isNonNegInteger (initialCount Number_decimal [STORAGE_KEYS_COUNT \<mapsto> ''-5''])"
proof -
  have a: "Number_decimal ''108'' = Finite 108"
    by (simp add: Number_decimal_def digit_value_def)
  have b: "\<not> isFinite (Number_decimal ''1O8'')"
    by (simp add: Number_decimal_def digit_value_def)
  have c: "Number_decimal ''-5'' = Finite (- 5)"
    by (simp add: Number_decimal_def digit_value_def)
  from initialCount_finite [of Number_decimal "[STORAGE_KEYS_COUNT \<mapsto> ''108'']"] a
  have 1: "initialCount Number_decimal [STORAGE_KEYS_COUNT \<mapsto> ''108''] = Finite 108"
    by simp
  from initialCount_finite [of Number_decimal "[STORAGE_KEYS_COUNT \<mapsto> ''1O8'']"] b
  have 2: "initialCount Number_decimal [STORAGE_KEYS_COUNT \<mapsto> ''1O8''] = Finite 0"
    by simp
  from initialCount_finite [of Number_decimal Map.empty]
  have 3: "initialCount Number_decimal Map.empty = Finite 0" by simp
  from initialCount_finite [of Number_decimal "[STORAGE_KEYS_COUNT \<mapsto> ''-5'']"] c
  have 4: "\<not> isNonNegInteger (initialCount Number_decimal [STORAGE_KEYS_COUNT \<mapsto> ''-5''])"
    by (simp add: isNonNegInteger_def)
  from 1 2 3 4 show ?thesis by (simp add: isNonNegInteger_def)
qed

text \<open>
  The claim as the spec words it fails on a stored negative number: the text \<open>-5\<close> is
  restored as the tally -5.
\<close>

theorem initialCount_negative_counterexample:
  "initialCount Number_decimal [STORAGE_KEYS_COUNT \<mapsto> ''-5''] = Finite (- 5)
   \<and> \<not> isNonNegInteger (initialCount Number_decimal [STORAGE_KEYS_COUNT \<mapsto> ''-5''])"
  by (simp add: initialCount_def loadNumber_def Number_decimal_def digit_value_def
        isNonNegInteger_def)

end
